theory Spec2Isabelle
  imports Main "HOL-Library.Multiset"
begin

section \<open>AlmaLinux errata email notifications: the watermark state machine\<close>

text \<open>
  A shallow embedding of \<^verbatim>\<open>errata-email-notifications.py\<close>. The script polls one
  JSON errata feed per distribution, keeps a per-distribution timestamp file
  (\<^verbatim>\<open><dist>_last_processed_ts\<close>), and mails every entry that is newer than that timestamp.

  Python strings are modelled as \<open>string\<close>, the list of their UTF-8 bytes. Python's
  unbounded integers are \<open>int\<close>. Uncaught exceptions are values of a sum type; everything
  outside the process (the feed, the SMTP server, the disk) is an oracle of the environment
  record, indexed by the number of calls made so far, so that every sequence of outcomes is
  covered.
\<close>

subsection \<open>Python built-ins used by the script\<close>

datatype py_error = FileNotFoundError | ValueError | OSError

definition digit_char :: "nat \<Rightarrow> char" where
  "digit_char d = ''0123456789'' ! d"

text \<open>\<^verbatim>\<open>str(n)\<close> for a non-negative integer: its decimal digits.\<close>

function digits_of :: "nat \<Rightarrow> string" where
  "digits_of n = (if n < 10 then [digit_char n] else digits_of (n div 10) @ [digit_char (n mod 10)])"
  by pat_completeness auto
termination
  by (relation "measure (\<lambda>n. n)") auto

declare digits_of.simps [simp del]

text \<open>\<^verbatim>\<open>str(ts)\<close> for an integer.\<close>

definition py_str :: "int \<Rightarrow> string" where
  "py_str i = (if i < 0 then CHR ''-'' # digits_of (nat (- i)) else digits_of (nat i))"

definition digit_val :: "char \<Rightarrow> nat option" where
  "digit_val c = map_of (zip ''0123456789'' [0, 1, 2, 3, 4, 5, 6, 7, 8, 9]) c"

text \<open>
  The digits of \<^verbatim>\<open>int(s)\<close> after the first one: decimal digits, where a single underscore
  may stand between two digits.
\<close>

fun parse_digits :: "nat \<Rightarrow> string \<Rightarrow> nat option" where
  "parse_digits acc [] = Some acc"
| "parse_digits acc [c] =
     (case digit_val c of None \<Rightarrow> None | Some v \<Rightarrow> Some (10 * acc + v))"
| "parse_digits acc (c # d # ds) =
     (if c = CHR ''_'' then
        (case digit_val d of None \<Rightarrow> None | Some v \<Rightarrow> parse_digits (10 * acc + v) ds)
      else
        (case digit_val c of None \<Rightarrow> None | Some v \<Rightarrow> parse_digits (10 * acc + v) (d # ds)))"

definition parse_nat :: "string \<Rightarrow> nat option" where
  "parse_nat s =
     (case s of
        [] \<Rightarrow> None
      | c # cs \<Rightarrow> (case digit_val c of None \<Rightarrow> None | Some v \<Rightarrow> parse_digits v cs))"

text \<open>The ASCII whitespace that \<^verbatim>\<open>int()\<close> strips from both ends.\<close>

definition is_space :: "char \<Rightarrow> bool" where
  "is_space c = (c \<in> set [CHR 0x20, CHR 0x09, CHR 0x0A, CHR 0x0B, CHR 0x0C, CHR 0x0D])"

definition strip :: "string \<Rightarrow> string" where
  "strip s = rev (dropWhile is_space (rev (dropWhile is_space s)))"

text \<open>
  \<^verbatim>\<open>int(s)\<close> in base ten: \<open>None\<close> stands for the \<^verbatim>\<open>ValueError\<close>. Digits other than
  the ASCII ones are refused here.
\<close>

definition py_int :: "string \<Rightarrow> int option" where
  "py_int s =
     (case strip s of
        [] \<Rightarrow> None
      | c # cs \<Rightarrow>
          if c = CHR ''-'' then map_option (\<lambda>n. - int n) (parse_nat cs)
          else if c = CHR ''+'' then map_option int (parse_nat cs)
          else map_option int (parse_nat (c # cs)))"

text \<open>\<^verbatim>\<open>f.readline()\<close> on a freshly opened file: the first line with its line feed.\<close>

definition readline :: "string \<Rightarrow> string" where
  "readline s =
     takeWhile (\<lambda>c. c \<noteq> CHR 0x0A) s @ take 1 (dropWhile (\<lambda>c. c \<noteq> CHR 0x0A) s)"

text \<open>\<^verbatim>\<open>str.capitalize()\<close> on ASCII letters; other bytes are left as they are.\<close>

definition ascii_upper :: "char \<Rightarrow> char" where
  "ascii_upper c =
     (case map_of (zip ''abcdefghijklmnopqrstuvwxyz'' ''ABCDEFGHIJKLMNOPQRSTUVWXYZ'') c of
        None \<Rightarrow> c | Some u \<Rightarrow> u)"

definition ascii_lower :: "char \<Rightarrow> char" where
  "ascii_lower c =
     (case map_of (zip ''ABCDEFGHIJKLMNOPQRSTUVWXYZ'' ''abcdefghijklmnopqrstuvwxyz'') c of
        None \<Rightarrow> c | Some l \<Rightarrow> l)"

definition capitalize :: "string \<Rightarrow> string" where
  "capitalize s = (case s of [] \<Rightarrow> [] | c # cs \<Rightarrow> ascii_upper c # map ascii_lower cs)"

text \<open>
  \<^verbatim>\<open>os.path.join(a, b)\<close> of \<^verbatim>\<open>posixpath\<close>, and the resolution of a relative path against
  the working directory that every file system call performs.
\<close>

type_synonym path = string

definition is_abs :: "path \<Rightarrow> bool" where
  "is_abs p = (case p of [] \<Rightarrow> False | c # _ \<Rightarrow> c = CHR ''/'')"

definition os_path_join :: "path \<Rightarrow> path \<Rightarrow> path" where
  "os_path_join a b =
     (if is_abs b then b
      else if a = [] \<or> last a = CHR ''/'' then a @ b
      else a @ ''/'' @ b)"

subsection \<open>Dates\<close>

text \<open>
  \<^verbatim>\<open>datetime.utcfromtimestamp(ts/1000).strftime('%Y-%m-%d')\<close>. The timestamp is an integer
  number of milliseconds; the day is \<open>ts div 86400000\<close>, and the civil date of a day number
  is computed in the proleptic Gregorian calendar. Outside the years 1 to 9999
  \<^verbatim>\<open>utcfromtimestamp\<close> raises.
\<close>

definition civil_from_days :: "int \<Rightarrow> int \<times> int \<times> int" where
  "civil_from_days days =
     (let z = days + 719468;
          era = z div 146097;
          doe = z - era * 146097;
          yoe = (doe - doe div 1460 + doe div 36524 - doe div 146096) div 365;
          doy = doe - (365 * yoe + yoe div 4 - yoe div 100);
          mp = (5 * doy + 2) div 153;
          d = doy - (153 * mp + 2) div 5 + 1;
          m = (if mp < 10 then mp + 3 else mp - 9);
          y = yoe + era * 400 + (if m \<le> 2 then 1 else 0)
      in (y, m, d))"

definition zero_pad :: "nat \<Rightarrow> string \<Rightarrow> string" where
  "zero_pad w s = replicate (w - length s) CHR ''0'' @ s"

definition ts_to_date :: "int \<Rightarrow> py_error + string" where
  "ts_to_date ts =
     (if ts < - 62135596800000 \<or> 253402300799999 < ts then Inl ValueError
      else
        (case civil_from_days (ts div 86400000) of
           (y, m, d) \<Rightarrow>
             Inr (zero_pad 4 (py_str y) @ ''-'' @ zero_pad 2 (py_str m) @ ''-'' @
                  zero_pad 2 (py_str d))))"

subsection \<open>Feed entries and messages\<close>

text \<open>
  One object of the feed's JSON array, with the keys the script reads:
  \<^verbatim>\<open>type\<close>, \<^verbatim>\<open>title\<close>, \<^verbatim>\<open>severity\<close>, \<^verbatim>\<open>description\<close>, \<^verbatim>\<open>updateinfo_id\<close>,
  \<^verbatim>\<open>updated_date.$date\<close> and \<^verbatim>\<open>references\<close> (objects with \<^verbatim>\<open>id\<close> and \<^verbatim>\<open>href\<close>).
  The record fixes the feed format: every key is present, the texts are strings and the
  date is an integer.
\<close>

record reference =
  ref_id :: string
  href :: string

record errata =
  errata_type :: string
  title :: string
  severity :: string
  description :: string
  updateinfo_id :: string
  updated_date :: int
  references :: "reference list"

text \<open>The four parts of the \<^verbatim>\<open>EmailMessage\<close> that the script sets.\<close>

record email =
  msg_from :: string
  msg_to :: string
  msg_subject :: string
  msg_content :: string

definition DISTRIBUTIONS_ERRATA_URL :: "string \<rightharpoonup> string" where
  "DISTRIBUTIONS_ERRATA_URL =
     map_of [(''almalinux-8'', ''https://errata.almalinux.org/8/errata.json''),
             (''almalinux-9'', ''https://errata.almalinux.org/9/errata.json'')]"

definition EMAIL_FROM_NAME :: string where
  "EMAIL_FROM_NAME = ''AlmaLinux Errata Notifications''"

text \<open>
  \<^verbatim>\<open>Template.substitute\<close> replaces each placeholder once, from left to right, and does
  not look into the substituted text, so a template is the concatenation of its fixed
  parts and its arguments.
\<close>

definition SUBJECT_TEMPLATE :: "string \<Rightarrow> string \<Rightarrow> string" where
  "SUBJECT_TEMPLATE errata_type' errata_title =
     ''['' @ errata_type' @ '' Advisory] '' @ errata_title"

definition CONTENT_TEMPLATE :: "string \<Rightarrow> string \<Rightarrow> string \<Rightarrow> string \<Rightarrow> string \<Rightarrow> string" where
  "CONTENT_TEMPLATE errata_type' errata_severity errata_date errata_description errata_link =
     ''Hi, you are receiving an AlmaLinux '' @ errata_type' @
     '' update email because you subscribed to receive errata notifications from AlmaLinux.\<newline>\<newline>Type: '' @
     errata_type' @ ''\<newline>Severity: '' @ errata_severity @ ''\<newline>Release date: '' @ errata_date @
     ''\<newline>\<newline>Summary:\<newline>\<newline>'' @ errata_description @
     ''\<newline>\<newline>Full details, updated packages, references, and other related information: '' @
     errata_link @
     ''\<newline>\<newline>This message is automatically generated, please don'' @
     [CHR 0xC3, CHR 0xA2, CHR 0xE2, CHR 0x82, CHR 0xAC, CHR 0xE2, CHR 0x84, CHR 0xA2] @
     ''t reply. For further questions, please, contact us via the AlmaLinux community chat: https://chat.almalinux.org/.\<newline>Want to change your notification settings? Sign in and manage mailing lists on https://lists.almalinux.org.\<newline>\<newline>Kind regards,\<newline>AlmaLinux team\<newline>''"

text \<open>
  \<^verbatim>\<open>get_almalinux_errata_href\<close>: the loop over \<^verbatim>\<open>errata['references']\<close> with its
  \<^verbatim>\<open>break\<close>; \<open>href_loop\<close> is the loop, started with \<^verbatim>\<open>href = ''\<close>.
\<close>

fun href_loop :: "string \<Rightarrow> string \<Rightarrow> reference list \<Rightarrow> string" where
  "href_loop uid h [] = h"
| "href_loop uid h (r # refs) = (if ref_id r = uid then href r else href_loop uid h refs)"

definition get_almalinux_errata_href :: "errata \<Rightarrow> string" where
  "get_almalinux_errata_href e = href_loop (updateinfo_id e) [] (references e)"

text \<open>
  Assigning a header of an \<^verbatim>\<open>EmailMessage\<close> raises \<^verbatim>\<open>ValueError\<close> when
  \<^verbatim>\<open>len(value.splitlines()) > 1\<close>, that is when a line boundary is followed by more text.
  \<open>boundary_len\<close> is the length in bytes of the line boundary a text starts with.
\<close>

definition boundary_len :: "string \<Rightarrow> nat" where
  "boundary_len s =
     (if take 2 s = [CHR 0x0D, CHR 0x0A] then 2
      else if take 1 s \<in> set [[CHR 0x0A], [CHR 0x0B], [CHR 0x0C], [CHR 0x0D],
                               [CHR 0x1C], [CHR 0x1D], [CHR 0x1E]] then 1
      else if take 2 s = [CHR 0xC2, CHR 0x85] then 2
      else if take 3 s = [CHR 0xE2, CHR 0x80, CHR 0xA8] \<or> take 3 s = [CHR 0xE2, CHR 0x80, CHR 0xA9]
      then 3
      else 0)"

fun multi_line :: "string \<Rightarrow> bool" where
  "multi_line [] = False"
| "multi_line (c # cs) =
     (if 0 < boundary_len (c # cs) then drop (boundary_len (c # cs)) (c # cs) \<noteq> []
      else multi_line cs)"

definition set_header :: "string \<Rightarrow> py_error + string" where
  "set_header v = (if multi_line v then Inl ValueError else Inr v)"

text \<open>
  Lines 160 to 180 of the script: the subject, the body and the message of one entry.
  Nothing of this is inside the \<^verbatim>\<open>try\<close>, so an exception here leaves \<^verbatim>\<open>run\<close>.
\<close>

definition email_subject :: "errata \<Rightarrow> string" where
  "email_subject e = SUBJECT_TEMPLATE (capitalize (errata_type e)) (title e)"

definition email_body :: "errata \<Rightarrow> py_error + string" where
  "email_body e =
     (case ts_to_date (updated_date e) of
        Inl err \<Rightarrow> Inl err
      | Inr errata_date \<Rightarrow>
          Inr (CONTENT_TEMPLATE (capitalize (errata_type e)) (capitalize (severity e))
                 errata_date (description e) (get_almalinux_errata_href e)))"

definition build_message :: "string \<Rightarrow> string \<Rightarrow> errata \<Rightarrow> py_error + email" where
  "build_message sender' recipient' e =
     (case email_body e of
        Inl err \<Rightarrow> Inl err
      | Inr body \<Rightarrow>
          (case set_header (EMAIL_FROM_NAME @ '' <'' @ sender' @ ''>'') of
             Inl err \<Rightarrow> Inl err
           | Inr f \<Rightarrow>
               (case set_header recipient' of
                  Inl err \<Rightarrow> Inl err
                | Inr t \<Rightarrow>
                    (case set_header (email_subject e) of
                       Inl err \<Rightarrow> Inl err
                     | Inr subj \<Rightarrow>
                         Inr \<lparr>msg_from = f, msg_to = t, msg_subject = subj,
                              msg_content = body\<rparr>))))"

subsection \<open>The environment and the state of a run\<close>

text \<open>
  What a write of the timestamp file can do: succeed; raise in \<^verbatim>\<open>open\<close>, before the
  file is touched; or raise after \<^verbatim>\<open>open(..., 'w')\<close> has truncated the file, before
  the buffered text reaches the disk.
\<close>

datatype write_outcome = WriteOk | OpenRaises | WriteRaises

text \<open>
  The environment of one run of the script: the command line (\<open>sender\<close>, \<open>recipient\<close>),
  the working directory, the directory of the script (\<^verbatim>\<open>BASEPATH\<close>), and the outcome of
  every external call, by its number: \<open>feed k url\<close> is what \<^verbatim>\<open>json.loads\<close> returns for
  the \<open>k\<close>-th fetch (\<open>None\<close> when \<^verbatim>\<open>urlopen\<close>, the parser or the sort key raises),
  \<open>send_ok k\<close> tells whether the \<open>k\<close>-th call of \<^verbatim>\<open>SMTPSession.send\<close> returns, and
  \<open>disk k\<close> is the outcome of the \<open>k\<close>-th write of a timestamp file.
\<close>

record env =
  sender :: string
  recipient :: string
  cwd :: path
  BASEPATH :: path
  feed :: "nat \<Rightarrow> string \<Rightarrow> errata list option"
  send_ok :: "nat \<Rightarrow> bool"
  disk :: "nat \<Rightarrow> write_outcome"

datatype log_level = INFO | WARNING | ERROR

text \<open>
  The state: the files, and the history of the external calls. \<open>smtp_calls\<close> holds, for
  every call of \<^verbatim>\<open>SMTPSession.send\<close>, the entry the message was rendered from, the message
  and whether the server took it. \<open>log\<close> holds the records of level INFO and above
  (\<^verbatim>\<open>logging.debug\<close> calls are left out).
\<close>

record state =
  fs :: "path \<rightharpoonup> string"
  smtp_calls :: "(errata \<times> email \<times> bool) list"
  log :: "(log_level \<times> string) list"
  fetches :: nat
  writes :: nat
  smtp_open :: bool

type_synonym result = "(py_error \<times> state) + state"

definition logging :: "log_level \<Rightarrow> string \<Rightarrow> state \<Rightarrow> state" where
  "logging lvl text st = st\<lparr>log := log st @ [(lvl, text)]\<rparr>"

definition resolve :: "env \<Rightarrow> path \<Rightarrow> path" where
  "resolve env p = os_path_join (cwd env) p"

definition os_path_exists :: "env \<Rightarrow> state \<Rightarrow> path \<Rightarrow> bool" where
  "os_path_exists env st p = (fs st (resolve env p) \<noteq> None)"

text \<open>The path of the timestamp file that is read and written: under \<^verbatim>\<open>BASEPATH\<close>.\<close>

definition ts_path :: "env \<Rightarrow> string \<Rightarrow> path" where
  "ts_path env file = resolve env (os_path_join (BASEPATH env) file)"

text \<open>
  \<^verbatim>\<open>fetch_errata_data\<close>: the parsed feed sorted by date, newest first. \<^verbatim>\<open>sorted\<close> is
  stable, and with \<^verbatim>\<open>reverse=True\<close> entries of equal date keep their order: the list is
  reversed, sorted and reversed again. Any exception gives \<^verbatim>\<open>None\<close>.
\<close>

definition sorted_desc :: "errata list \<Rightarrow> errata list" where
  "sorted_desc data = rev (sort_key updated_date (rev data))"

definition fetch_errata_data :: "env \<Rightarrow> state \<Rightarrow> string \<Rightarrow> errata list option \<times> state" where
  "fetch_errata_data env st url =
     (map_option sorted_desc (feed env (fetches st) url), st\<lparr>fetches := fetches st + 1\<rparr>)"

text \<open>
  \<^verbatim>\<open>save_last_processed_ts\<close>: \<^verbatim>\<open>open(os.path.join(BASEPATH, file_to_write), 'w')\<close>,
  \<^verbatim>\<open>f.write(str(ts))\<close>, then the INFO record.
\<close>

definition save_last_processed_ts :: "env \<Rightarrow> state \<Rightarrow> string \<Rightarrow> int \<Rightarrow> result" where
  "save_last_processed_ts env st file_to_write ts =
     (let p = ts_path env file_to_write;
          st1 = st\<lparr>writes := writes st + 1\<rparr>
      in case disk env (writes st) of
           OpenRaises \<Rightarrow> Inl (OSError, st1)
         | WriteRaises \<Rightarrow> Inl (OSError, st1\<lparr>fs := (fs st1)(p \<mapsto> [])\<rparr>)
         | WriteOk \<Rightarrow>
             Inr (logging INFO (''Updated '' @ file_to_write @ '' with timestamp '' @ py_str ts)
                    (st1\<lparr>fs := (fs st1)(p \<mapsto> py_str ts)\<rparr>)))"

text \<open>\<^verbatim>\<open>SMTPSession.send\<close>, with the entry the message belongs to kept in the history.\<close>

definition smtp_send :: "env \<Rightarrow> state \<Rightarrow> errata \<Rightarrow> email \<Rightarrow> bool \<times> state" where
  "smtp_send env st e msg =
     (let ok = send_ok env (length (smtp_calls st))
      in (ok, st\<lparr>smtp_calls := smtp_calls st @ [(e, msg, ok)]\<rparr>))"

definition send_failed :: "state \<Rightarrow> state" where
  "send_failed st = logging ERROR ''Could not send errata notification email'' st"

text \<open>
  The loop of lines 157 to 187 over \<^verbatim>\<open>reversed(new_erratas)\<close>. The bare \<^verbatim>\<open>except\<close>
  catches what \<^verbatim>\<open>send\<close> and \<^verbatim>\<open>save_last_processed_ts\<close> raise; an exception while the
  message is built is not caught and ends the run.
\<close>

fun send_loop :: "env \<Rightarrow> string \<Rightarrow> state \<Rightarrow> errata list \<Rightarrow> result" where
  "send_loop env file st [] = Inr st"
| "send_loop env file st (e # rest) =
     (case build_message (sender env) (recipient env) e of
        Inl err \<Rightarrow> Inl (err, st)
      | Inr msg \<Rightarrow>
          (case smtp_send env st e msg of
             (ok, st1) \<Rightarrow>
               if ok then
                 (case save_last_processed_ts env st1 file (updated_date e) of
                    Inl (err, st2) \<Rightarrow> send_loop env file (send_failed st2) rest
                  | Inr st2 \<Rightarrow> send_loop env file st2 rest)
               else send_loop env file (send_failed st1) rest))"

text \<open>
  Lines 145 and 146: the first line of the timestamp file under \<^verbatim>\<open>BASEPATH\<close>;
  \<^verbatim>\<open>open\<close> raises when there is no such file.
\<close>

definition read_last_processed_ts :: "env \<Rightarrow> state \<Rightarrow> string \<Rightarrow> py_error + string" where
  "read_last_processed_ts env st file =
     (case fs st (ts_path env file) of
        None \<Rightarrow> Inl FileNotFoundError
      | Some text \<Rightarrow> Inr (readline text))"

text \<open>The body of the loop over the distributions (lines 119 to 187), for one of them.\<close>

definition process_dist :: "env \<Rightarrow> state \<Rightarrow> string \<Rightarrow> result" where
  "process_dist env st dist =
     (case DISTRIBUTIONS_ERRATA_URL dist of
        None \<Rightarrow>
          Inr (logging WARNING (''Skipping '' @ dist @ '' as it is not a valid distribution'') st)
      | Some errata_json_url \<Rightarrow>
          (case fetch_errata_data env st errata_json_url of
             (None, st1) \<Rightarrow>
               Inr (logging WARNING
                      (''Could not fetch errata file for '' @ dist @ '', skipping'') st1)
           | (Some [], st1) \<Rightarrow>
               Inr (logging WARNING
                      (''Could not fetch errata file for '' @ dist @ '', skipping'') st1)
           | (Some (newest # older), st1) \<Rightarrow>
               let last_processed_ts_file = dist @ ''_last_processed_ts'' in
               if \<not> os_path_exists env st1 last_processed_ts_file then
                 (case save_last_processed_ts env st1 last_processed_ts_file
                         (updated_date newest) of
                    Inl x \<Rightarrow> Inl x
                  | Inr st2 \<Rightarrow>
                      Inr (logging WARNING
                             (''Skipping notifications for '' @ dist @
                              '' as it looks like is the first time this script is running'')
                             st2))
               else
                 (case read_last_processed_ts env st1 last_processed_ts_file of
                    Inl err \<Rightarrow> Inl (err, st1)
                  | Inr last_processed_ts \<Rightarrow>
                      (case py_int last_processed_ts of
                         None \<Rightarrow> Inl (ValueError, st1)
                       | Some wm \<Rightarrow>
                           send_loop env last_processed_ts_file st1
                             (rev (filter (\<lambda>x. wm < updated_date x) (newest # older)))))))"

text \<open>\<^verbatim>\<open>run\<close>: every distribution in turn, then \<^verbatim>\<open>smtp_session.close()\<close>.\<close>

fun run_loop :: "env \<Rightarrow> state \<Rightarrow> string list \<Rightarrow> result" where
  "run_loop env st [] = Inr st"
| "run_loop env st (dist # dists) =
     (case process_dist env st dist of
        Inl x \<Rightarrow> Inl x
      | Inr st1 \<Rightarrow> run_loop env st1 dists)"

definition run :: "env \<Rightarrow> state \<Rightarrow> string list \<Rightarrow> result" where
  "run env st distributions =
     (case run_loop env st distributions of
        Inl x \<Rightarrow> Inl x
      | Inr st1 \<Rightarrow> Inr (st1\<lparr>smtp_open := False\<rparr>))"

subsection \<open>Observations on a run\<close>

text \<open>The state a run ends in, whether it returns or raises.\<close>

definition final :: "result \<Rightarrow> state" where
  "final r = (case r of Inl (err, st) \<Rightarrow> st | Inr st \<Rightarrow> st)"

definition returns :: "result \<Rightarrow> bool" where
  "returns r = (case r of Inl x \<Rightarrow> False | Inr st \<Rightarrow> True)"

text \<open>
  The entries handed to \<^verbatim>\<open>SMTPSession.send\<close> between two states, in order, and those of
  them the server took.
\<close>

definition attempted_since :: "state \<Rightarrow> state \<Rightarrow> errata list" where
  "attempted_since st st' = map fst (drop (length (smtp_calls st)) (smtp_calls st'))"

definition delivered_since :: "state \<Rightarrow> state \<Rightarrow> errata list" where
  "delivered_since st st' =
     map fst (filter (\<lambda>c. snd (snd c)) (drop (length (smtp_calls st)) (smtp_calls st')))"

text \<open>
  The persisted watermark of a distribution as lines 145 to 150 read it: the integer in
  the first line of the file under \<^verbatim>\<open>BASEPATH\<close>, if there is one.
\<close>

definition watermark :: "env \<Rightarrow> state \<Rightarrow> string \<Rightarrow> int option" where
  "watermark env st dist =
     (case read_last_processed_ts env st (dist @ ''_last_processed_ts'') of
        Inl err \<Rightarrow> None
      | Inr text \<Rightarrow> py_int text)"

text \<open>An entry whose message can be built: no exception on lines 160 to 180.\<close>

definition renderable :: "env \<Rightarrow> errata \<Rightarrow> bool" where
  "renderable env e =
     (case build_message (sender env) (recipient env) e of Inl err \<Rightarrow> False | Inr msg \<Rightarrow> True)"

text \<open>
  The calls of \<^verbatim>\<open>send\<close> that the loop makes on a list of entries when \<open>n\<close> calls were
  made before: one per entry, up to the first entry whose message cannot be built.
\<close>

fun calls_of :: "env \<Rightarrow> nat \<Rightarrow> errata list \<Rightarrow> (errata \<times> email \<times> bool) list" where
  "calls_of env n [] = []"
| "calls_of env n (e # rest) =
     (case build_message (sender env) (recipient env) e of
        Inl err \<Rightarrow> []
      | Inr msg \<Rightarrow> (e, msg, send_ok env n) # calls_of env (Suc n) rest)"

text \<open>
  One iteration of the loop of lines 157 to 187 for an entry whose message \<open>msg\<close> was
  built, as a function on states: the call of \<^verbatim>\<open>send\<close>, the write of the timestamp when
  the call returned, and the handler of the bare \<^verbatim>\<open>except\<close>.
\<close>

definition iteration :: "env \<Rightarrow> string \<Rightarrow> state \<Rightarrow> errata \<Rightarrow> email \<Rightarrow> state" where
  "iteration env file st e msg =
     (case smtp_send env st e msg of
        (ok, st1) \<Rightarrow>
          if ok then
            (case save_last_processed_ts env st1 file (updated_date e) of
               Inl (err, st2) \<Rightarrow> send_failed st2
             | Inr st2 \<Rightarrow> st2)
          else send_failed st1)"

text \<open>
  The list the loop runs over when the watermark read from the file is \<open>w\<close>:
  \<^verbatim>\<open>reversed(new_erratas)\<close>, the entries of the sorted feed newer than \<open>w\<close>, last first.
\<close>

definition new_entries :: "int \<Rightarrow> errata list \<Rightarrow> errata list" where
  "new_entries w data = rev (filter (\<lambda>x. w < updated_date x) (sorted_desc data))"

text \<open>
  Successive runs of the script for one distribution, each in its own environment; the
  files a run leaves, also when it raises, are what the next run starts from.
\<close>

fun runs :: "env list \<Rightarrow> state \<Rightarrow> string \<Rightarrow> state" where
  "runs [] st dist = st"
| "runs (env # envs) st dist = runs envs (final (process_dist env st dist)) dist"

subsection \<open>Example inputs\<close>

text \<open>
  A feed entry in the published format, with its own reference after a foreign one, and
  the feed of three entries dated 100, 200 and 300 ms, in that order.
\<close>

definition example_entry :: "string \<Rightarrow> int \<Rightarrow> errata" where
  "example_entry uid ts =
     \<lparr>errata_type = ''security'',
      title = uid @ '': Important: kernel security update'',
      severity = ''important'',
      description = ''An update for kernel is now available.'',
      updateinfo_id = uid,
      updated_date = ts,
      references =
        [\<lparr>ref_id = ''CVE-2023-0001'', href = ''https://vulners.example/CVE-2023-0001''\<rparr>,
         \<lparr>ref_id = uid, href = ''https://errata.almalinux.org/8/'' @ uid @ ''.html''\<rparr>,
         \<lparr>ref_id = uid, href = ''https://mirror.example/'' @ uid\<rparr>]\<rparr>"

definition e100 :: errata where "e100 = example_entry ''ALSA-2023:0100'' 100"
definition e200 :: errata where "e200 = example_entry ''ALSA-2023:0200'' 200"
definition e300 :: errata where "e300 = example_entry ''ALSA-2023:0300'' 300"

definition example_feed :: "errata list" where
  "example_feed = [e100, e200, e300]"

text \<open>
  An environment whose working directory is \<open>dir\<close>, with the script installed in
  \<^verbatim>\<open>/opt/errata\<close>, the example feed at every URL, and the given outcomes of the calls
  of \<^verbatim>\<open>send\<close> and of the writes.
\<close>

definition example_env :: "path \<Rightarrow> (nat \<Rightarrow> bool) \<Rightarrow> (nat \<Rightarrow> write_outcome) \<Rightarrow> env" where
  "example_env dir s d =
     \<lparr>sender = ''errata@example.org'', recipient = ''announce@example.org'',
      cwd = dir, BASEPATH = ''/opt/errata'',
      feed = (\<lambda>k url. Some example_feed), send_ok = s, disk = d\<rparr>"

text \<open>A state at the start of a run, with the given files.\<close>

definition start_state :: "(path \<rightharpoonup> string) \<Rightarrow> state" where
  "start_state files =
     \<lparr>fs = files, smtp_calls = [], log = [], fetches = 0, writes = 0, smtp_open = True\<rparr>"

definition wm150 :: "path \<rightharpoonup> string" where
  "wm150 = [''/opt/errata/almalinux-8_last_processed_ts'' \<mapsto> ''150'']"

text \<open>Outcomes of the calls used in the examples.\<close>

definition always :: "nat \<Rightarrow> bool" where
  "always k = True"

definition never :: "nat \<Rightarrow> bool" where
  "never k = False"

definition all_but :: "nat \<Rightarrow> nat \<Rightarrow> bool" where
  "all_but n k = (k \<noteq> n)"

definition disk_ok :: "nat \<Rightarrow> write_outcome" where
  "disk_ok k = WriteOk"

definition open_raises_at :: "nat \<Rightarrow> nat \<Rightarrow> write_outcome" where
  "open_raises_at n k = (if k = n then OpenRaises else WriteOk)"

definition write_raises_at :: "nat \<Rightarrow> nat \<Rightarrow> write_outcome" where
  "write_raises_at n k = (if k = n then WriteRaises else WriteOk)"

definition no_files :: "path \<rightharpoonup> string" where
  "no_files = Map.empty"

subsection \<open>Round trip of the timestamp through the file\<close>

lemma digit_val_digit_char: "d < 10 \<Longrightarrow> digit_val (digit_char d) = Some d"
proof -
  assume "d < 10"
  then have "d \<in> {0, 1, 2, 3, 4, 5, 6, 7, 8, 9}" by auto
  then show ?thesis
    by (auto simp: digit_val_def digit_char_def)
qed

lemma digit_char_not_special:
  assumes "d < 10"
  shows "digit_char d \<noteq> CHR ''_''" "digit_char d \<noteq> CHR ''-''" "digit_char d \<noteq> CHR ''+''"
    "\<not> is_space (digit_char d)" "digit_char d \<noteq> CHR 0x0A"
proof -
  from assms have "d \<in> {0, 1, 2, 3, 4, 5, 6, 7, 8, 9}" by auto
  then show "digit_char d \<noteq> CHR ''_''" "digit_char d \<noteq> CHR ''-''" "digit_char d \<noteq> CHR ''+''"
    "\<not> is_space (digit_char d)" "digit_char d \<noteq> CHR 0x0A"
    by (auto simp: digit_char_def is_space_def)
qed

lemma parse_digits_digits:
  "\<forall>c\<in>set ds. \<exists>d<10. c = digit_char d \<Longrightarrow>
   parse_digits acc ds = Some (foldl (\<lambda>a c. 10 * a + the (digit_val c)) acc ds)"
proof (induction acc ds rule: parse_digits.induct)
  case (1 acc)
  then show ?case by simp
next
  case (2 acc c)
  then show ?case by (auto simp: digit_val_digit_char)
next
  case (3 acc c d ds)
  from "3.prems" obtain k where k: "k < 10" "c = digit_char k" by auto
  have nc: "c \<noteq> CHR ''_''" using k digit_char_not_special(1) by simp
  have dv: "digit_val c = Some k" using k digit_val_digit_char by simp
  from "3.prems" have rest: "\<forall>x\<in>set (d # ds). \<exists>j<10. x = digit_char j" by simp
  show ?case using "3.IH"(2)[OF nc dv rest] nc dv by simp
qed

lemma digits_of_digits: "\<forall>c\<in>set (digits_of n). \<exists>d<10. c = digit_char d"
proof (induction n rule: digits_of.induct)
  case (1 n)
  show ?case
  proof (cases "n < 10")
    case True
    then show ?thesis by (subst digits_of.simps) auto
  next
    case False
    have "\<exists>d<10. digit_char (n mod 10) = digit_char d"
      by (rule exI[of _ "n mod 10"]) simp
    with 1 False show ?thesis by (subst digits_of.simps) auto
  qed
qed

lemma digits_of_value: "foldl (\<lambda>a c. 10 * a + the (digit_val c)) 0 (digits_of n) = n"
proof (induction n rule: digits_of.induct)
  case (1 n)
  show ?case
  proof (cases "n < 10")
    case True
    then show ?thesis by (subst digits_of.simps) (simp add: digit_val_digit_char)
  next
    case False
    have "n mod 10 < 10" by simp
    with 1 False show ?thesis by (subst digits_of.simps) (simp add: digit_val_digit_char)
  qed
qed

lemma digits_of_nonempty: "digits_of n \<noteq> []"
  by (subst digits_of.simps) simp

lemma parse_nat_digits_of: "parse_nat (digits_of n) = Some n"
proof -
  obtain c cs where cs: "digits_of n = c # cs"
    using digits_of_nonempty by (cases "digits_of n") auto
  have all: "\<forall>x\<in>set (c # cs). \<exists>d<10. x = digit_char d"
    using digits_of_digits[of n] cs by simp
  then obtain k where k: "k < 10" "c = digit_char k" by auto
  have dv: "digit_val c = Some k" using k digit_val_digit_char by simp
  have "parse_digits k cs = Some (foldl (\<lambda>a c. 10 * a + the (digit_val c)) k cs)"
    using all by (intro parse_digits_digits) simp
  also have "foldl (\<lambda>a c. 10 * a + the (digit_val c)) k cs = n"
    using digits_of_value[of n] cs dv by simp
  finally show ?thesis by (simp add: parse_nat_def cs dv)
qed

lemma strip_digits_of: "strip (digits_of n) = digits_of n"
proof -
  have ns: "\<forall>c\<in>set (digits_of n). \<not> is_space c"
    using digits_of_digits[of n] digit_char_not_special(4) by auto
  obtain c cs where cs: "digits_of n = c # cs"
    using digits_of_nonempty by (cases "digits_of n") auto
  have 1: "dropWhile is_space (digits_of n) = digits_of n"
    using ns cs by simp
  have "rev (digits_of n) \<noteq> []" using cs by simp
  moreover have "\<not> is_space (hd (rev (digits_of n)))"
    using ns cs by (metis hd_rev last_in_set list.distinct(1))
  ultimately have 2: "dropWhile is_space (rev (digits_of n)) = rev (digits_of n)"
    by (cases "rev (digits_of n)") auto
  show ?thesis by (simp add: strip_def 1 2)
qed

lemma strip_minus_digits: "strip (CHR ''-'' # digits_of n) = CHR ''-'' # digits_of n"
proof -
  have ns: "\<forall>c\<in>set (digits_of n). \<not> is_space c"
    using digits_of_digits[of n] digit_char_not_special(4) by auto
  have m: "\<not> is_space CHR ''-''" by (simp add: is_space_def)
  have ne: "digits_of n \<noteq> []" by (rule digits_of_nonempty)
  have 1: "dropWhile is_space (CHR ''-'' # digits_of n) = CHR ''-'' # digits_of n"
    using m by simp
  have "\<not> is_space (hd (rev (CHR ''-'' # digits_of n)))"
    using ns ne by (simp add: hd_rev)
  then have 2: "dropWhile is_space (rev (CHR ''-'' # digits_of n)) = rev (CHR ''-'' # digits_of n)"
    by (cases "rev (CHR ''-'' # digits_of n)") auto
  show ?thesis unfolding strip_def 1 2 by simp
qed

lemma digits_of_head: "\<exists>k<10. hd (digits_of n) = digit_char k"
  using digits_of_digits[of n] digits_of_nonempty[of n] by (cases "digits_of n") auto

lemma py_int_py_str: "py_int (py_str i) = Some i"
proof (cases "i < 0")
  case True
  then show ?thesis
    by (simp add: py_int_def py_str_def strip_minus_digits parse_nat_digits_of)
next
  case False
  obtain c cs where cs: "digits_of (nat i) = c # cs"
    using digits_of_nonempty by (cases "digits_of (nat i)") auto
  from digits_of_head[of "nat i"] cs obtain k where k: "k < 10" "c = digit_char k" by auto
  have "c \<noteq> CHR ''-''" "c \<noteq> CHR ''+''" using k digit_char_not_special by auto
  moreover have "parse_nat (c # cs) = Some (nat i)" using parse_nat_digits_of[of "nat i"] cs by simp
  moreover have "strip (c # cs) = c # cs" using strip_digits_of[of "nat i"] cs by simp
  ultimately show ?thesis using False
    by (simp add: py_int_def py_str_def cs)
qed

lemma readline_no_newline: "CHR 0x0A \<notin> set s \<Longrightarrow> readline s = s"
  by (induction s) (auto simp: readline_def)

lemma readline_py_str: "readline (py_str i) = py_str i"
proof -
  have d: "\<forall>c\<in>set (digits_of n). c \<noteq> CHR 0x0A" for n
    using digits_of_digits[of n] digit_char_not_special(5) by metis
  have "\<forall>c\<in>set (py_str i). c \<noteq> CHR 0x0A"
    using d[of "nat i"] d[of "nat (- i)"] by (auto simp: py_str_def)
  then have "CHR 0x0A \<notin> set (py_str i)" by blast
  then show ?thesis by (rule readline_no_newline)
qed

subsection \<open>The loop over the new entries\<close>

lemma final_simps [simp]: "final (Inr st) = st" "final (Inl (err, st)) = st"
  by (simp_all add: final_def)

lemma returns_simps [simp]: "returns (Inr st) = True" "returns (Inl x) = False"
  by (simp_all add: returns_def)

lemma logging_fields [simp]:
  "fs (logging lvl t st) = fs st"
  "smtp_calls (logging lvl t st) = smtp_calls st"
  "writes (logging lvl t st) = writes st"
  "fetches (logging lvl t st) = fetches st"
  "smtp_open (logging lvl t st) = smtp_open st"
  "log (logging lvl t st) = log st @ [(lvl, t)]"
  by (simp_all add: logging_def)

lemma send_failed_fields [simp]:
  "fs (send_failed st) = fs st"
  "smtp_calls (send_failed st) = smtp_calls st"
  "writes (send_failed st) = writes st"
  "fetches (send_failed st) = fetches st"
  by (simp_all add: send_failed_def)

lemma save_smtp_calls [simp]:
  "smtp_calls (final (save_last_processed_ts env st file ts)) = smtp_calls st"
  by (simp add: save_last_processed_ts_def Let_def split: write_outcome.splits)

lemma save_writes [simp]:
  "writes (final (save_last_processed_ts env st file ts)) = Suc (writes st)"
  by (simp add: save_last_processed_ts_def Let_def split: write_outcome.splits)

lemma save_fs_other:
  "q \<noteq> ts_path env file \<Longrightarrow> fs (final (save_last_processed_ts env st file ts)) q = fs st q"
  by (simp add: save_last_processed_ts_def Let_def split: write_outcome.splits)

lemma save_fs_ok:
  "disk env (writes st) = WriteOk \<Longrightarrow>
   \<exists>st'. save_last_processed_ts env st file ts = Inr st' \<and>
     fs st' = (fs st)(ts_path env file \<mapsto> py_str ts)"
  by (simp add: save_last_processed_ts_def Let_def)

lemma send_loop_step:
  "build_message (sender env) (recipient env) e = Inr msg \<Longrightarrow>
   send_loop env file st (e # rest) = send_loop env file (iteration env file st e msg) rest"
  by (simp add: iteration_def split: sum.splits prod.splits)

lemma send_loop_raise:
  "build_message (sender env) (recipient env) e = Inl err \<Longrightarrow>
   send_loop env file st (e # rest) = Inl (err, st)"
  by simp

lemma iteration_smtp_calls [simp]:
  "smtp_calls (iteration env file st e msg) =
     smtp_calls st @ [(e, msg, send_ok env (length (smtp_calls st)))]"
  by (simp add: iteration_def smtp_send_def save_last_processed_ts_def Let_def
      split: write_outcome.splits)

lemma iteration_fs_other:
  "q \<noteq> ts_path env file \<Longrightarrow> fs (iteration env file st e msg) q = fs st q"
  by (simp add: iteration_def smtp_send_def save_last_processed_ts_def Let_def
      split: write_outcome.splits)

lemma iteration_fs_failed:
  "\<not> send_ok env (length (smtp_calls st)) \<Longrightarrow> fs (iteration env file st e msg) = fs st"
  by (simp add: iteration_def smtp_send_def)

lemma iteration_fs:
  "fs (iteration env file st e msg) (ts_path env file) =
     (if send_ok env (length (smtp_calls st)) then
        (case disk env (writes st) of
           WriteOk \<Rightarrow> Some (py_str (updated_date e))
         | OpenRaises \<Rightarrow> fs st (ts_path env file)
         | WriteRaises \<Rightarrow> Some [])
      else fs st (ts_path env file))"
  by (simp add: iteration_def smtp_send_def save_last_processed_ts_def Let_def
      split: write_outcome.splits)

lemma iteration_writes:
  "writes (iteration env file st e msg) =
     (if send_ok env (length (smtp_calls st)) then Suc (writes st) else writes st)"
  by (simp add: iteration_def smtp_send_def save_last_processed_ts_def Let_def
      split: write_outcome.splits)

lemma iteration_fetches [simp]: "fetches (iteration env file st e msg) = fetches st"
  by (simp add: iteration_def smtp_send_def save_last_processed_ts_def Let_def
      split: write_outcome.splits)

lemma send_loop_calls:
  "smtp_calls (final (send_loop env file st todo)) =
     smtp_calls st @ calls_of env (length (smtp_calls st)) todo"
proof (induction todo arbitrary: st)
  case Nil
  then show ?case by simp
next
  case (Cons e rest)
  show ?case
  proof (cases "build_message (sender env) (recipient env) e")
    case (Inl err)
    then show ?thesis by simp
  next
    case (Inr msg)
    show ?thesis
      unfolding send_loop_step[OF Inr] Cons.IH by (simp add: Inr)
  qed
qed

lemma send_loop_fs_other:
  "q \<noteq> ts_path env file \<Longrightarrow> fs (final (send_loop env file st todo)) q = fs st q"
proof (induction todo arbitrary: st)
  case Nil
  then show ?case by simp
next
  case (Cons e rest)
  show ?case
  proof (cases "build_message (sender env) (recipient env) e")
    case (Inl err)
    then show ?thesis by simp
  next
    case (Inr msg)
    show ?thesis
      unfolding send_loop_step[OF Inr] using Cons by (simp add: iteration_fs_other)
  qed
qed

lemma send_loop_returns:
  "\<forall>e\<in>set todo. renderable env e \<Longrightarrow> returns (send_loop env file st todo)"
proof (induction todo arbitrary: st)
  case Nil
  then show ?case by simp
next
  case (Cons e rest)
  from Cons.prems obtain msg where msg: "build_message (sender env) (recipient env) e = Inr msg"
    by (auto simp: renderable_def split: sum.splits)
  show ?case unfolding send_loop_step[OF msg] using Cons by simp
qed

lemma calls_of_entries:
  "\<forall>e\<in>set todo. renderable env e \<Longrightarrow> map fst (calls_of env n todo) = todo"
  by (induction todo arbitrary: n) (auto simp: renderable_def split: sum.splits)

lemma calls_of_prefix: "\<exists>k. map fst (calls_of env n todo) = take k todo"
proof (induction todo arbitrary: n)
  case Nil
  then show ?case by simp
next
  case (Cons e rest)
  show ?case
  proof (cases "build_message (sender env) (recipient env) e")
    case (Inl err)
    then have "map fst (calls_of env n (e # rest)) = take 0 (e # rest)" by simp
    then show ?thesis by blast
  next
    case (Inr msg)
    from Cons obtain k where "map fst (calls_of env (Suc n) rest) = take k rest" by blast
    then have "map fst (calls_of env n (e # rest)) = take (Suc k) (e # rest)"
      using Inr by simp
    then show ?thesis by blast
  qed
qed

lemma send_loop_append:
  "send_loop env file st (xs @ ys) =
     (case send_loop env file st xs of Inl x \<Rightarrow> Inl x | Inr st1 \<Rightarrow> send_loop env file st1 ys)"
proof (induction xs arbitrary: st)
  case Nil
  then show ?case by simp
next
  case (Cons e rest)
  show ?case
  proof (cases "build_message (sender env) (recipient env) e")
    case (Inl err)
    then show ?thesis by simp
  next
    case (Inr msg)
    show ?thesis
      using send_loop_step[OF Inr] Cons.IH by simp
  qed
qed

lemma send_loop_watermark:
  assumes "\<forall>k. disk env k = WriteOk"
  shows "fs (final (send_loop env file st todo)) (ts_path env file) =
     (if delivered_since st (final (send_loop env file st todo)) = [] then fs st (ts_path env file)
      else Some (py_str (updated_date (last (delivered_since st (final (send_loop env file st todo)))))))"
proof (induction todo arbitrary: st)
  case Nil
  then show ?case by (simp add: delivered_since_def)
next
  case (Cons e rest)
  show ?case
  proof (cases "build_message (sender env) (recipient env) e")
    case (Inl err)
    then show ?thesis by (simp add: delivered_since_def)
  next
    case (Inr msg)
    let ?st1 = "iteration env file st e msg"
    let ?fin = "final (send_loop env file ?st1 rest)"
    have calls: "smtp_calls ?fin = smtp_calls st @ (e, msg, send_ok env (length (smtp_calls st))) #
        calls_of env (Suc (length (smtp_calls st))) rest"
      by (simp add: send_loop_calls)
    have d1: "delivered_since ?st1 ?fin =
        map fst (filter (\<lambda>c. snd (snd c)) (calls_of env (Suc (length (smtp_calls st))) rest))"
      by (simp add: delivered_since_def calls)
    have d0: "delivered_since st ?fin =
        (if send_ok env (length (smtp_calls st)) then [e] else []) @ delivered_since ?st1 ?fin"
      by (simp add: delivered_since_def calls)
    have it: "fs ?st1 (ts_path env file) =
        (if send_ok env (length (smtp_calls st)) then Some (py_str (updated_date e))
         else fs st (ts_path env file))"
      using assms by (simp add: iteration_fs)
    show ?thesis
      unfolding send_loop_step[OF Inr] Cons.IH[of ?st1] d0 it by simp
  qed
qed

subsection \<open>The sorted feed\<close>

lemma set_sorted_desc [simp]: "set (sorted_desc data) = set data"
  by (simp add: sorted_desc_def)

lemma sorted_desc_Nil [simp]: "sorted_desc data = [] \<longleftrightarrow> data = []"
  by (metis set_sorted_desc set_empty)

lemma sorted_desc_descending: "sorted (rev (map updated_date (sorted_desc data)))"
  by (simp add: sorted_desc_def rev_map)

lemma new_entries_sort:
  "new_entries w data = sort_key updated_date (filter (\<lambda>x. w < updated_date x) (rev data))"
  by (simp add: new_entries_def sorted_desc_def rev_filter filter_sort)

lemma sorted_new_entries: "sorted (map updated_date (new_entries w data))"
  by (simp add: new_entries_sort)

lemma set_new_entries: "set (new_entries w data) = {x \<in> set data. w < updated_date x}"
  by (auto simp: new_entries_sort)

lemma sort_key_rev_distinct:
  assumes "distinct (map f xs)"
  shows "sort_key f (rev xs) = sort_key f xs"
proof (rule properties_for_sort_key)
  show "mset (sort_key f xs) = mset (rev xs)" by simp
  show "sorted (map f (sort_key f xs))" by simp
  fix k assume "k \<in> set (sort_key f xs)"
  have inj: "inj_on f (set xs)" using assms by (simp add: distinct_map)
  have "filter (\<lambda>x. f k = f x) (sort_key f xs) = filter (\<lambda>x. f k = f x) xs"
    using sort_key_stable[of f "f k" xs] by (simp add: eq_commute)
  moreover have "filter (\<lambda>x. f k = f x) (rev xs) = filter (\<lambda>x. f k = f x) xs"
  proof -
    have d: "distinct xs" using assms by (simp add: distinct_map)
    have "length (filter (\<lambda>x. f k = f x) xs) \<le> 1"
      using assms
    proof (induction xs)
      case Nil
      then show ?case by simp
    next
      case (Cons a xs)
      then show ?case by (auto simp: filter_empty_conv image_iff)
    qed
    then have "rev (filter (\<lambda>x. f k = f x) xs) = filter (\<lambda>x. f k = f x) xs"
      by (cases "filter (\<lambda>x. f k = f x) xs") (auto simp: le_Suc_eq)
    then show ?thesis by (simp add: rev_filter)
  qed
  ultimately show "filter (\<lambda>x. f k = f x) (sort_key f xs) = filter (\<lambda>x. f k = f x) (rev xs)"
    by simp
qed

lemma new_entries_distinct:
  assumes "distinct (map updated_date data)"
  shows "new_entries w data = sort_key updated_date (filter (\<lambda>x. w < updated_date x) data)"
    and "sorted_wrt (<) (map updated_date (new_entries w data))"
proof -
  have "new_entries w data = filter (\<lambda>x. w < updated_date x) (sort_key updated_date (rev data))"
    by (simp add: new_entries_sort filter_sort)
  also have "\<dots> = filter (\<lambda>x. w < updated_date x) (sort_key updated_date data)"
    using sort_key_rev_distinct[OF assms] by simp
  finally show eq: "new_entries w data = sort_key updated_date (filter (\<lambda>x. w < updated_date x) data)"
    by (simp add: filter_sort)
  have "distinct (map updated_date (filter (\<lambda>x. w < updated_date x) data))"
    using assms by (simp add: distinct_map_filter)
  then have "distinct (map updated_date (new_entries w data))"
    unfolding eq by (metis distinct_map distinct_sort set_sort)
  then show "sorted_wrt (<) (map updated_date (new_entries w data))"
    using sorted_new_entries by (simp add: strict_sorted_iff)
qed

lemma sorted_last_Max:
  assumes "sorted (map f ys)" "ys \<noteq> []"
  shows "f (last ys) = Max (f ` set ys)"
proof (rule sym, rule Max_eqI)
  show "finite (f ` set ys)" by simp
  show "f (last ys) \<in> f ` set ys" using assms(2) by simp
  fix y assume "y \<in> f ` set ys"
  then obtain x where x: "x \<in> set ys" "y = f x" by auto
  have "ys = butlast ys @ [last ys]" using assms(2) by simp
  then have "sorted (map f (butlast ys) @ [f (last ys)])" using assms(1) by (metis list.simps(8,9) map_append)
  then have "\<forall>z\<in>set (butlast ys). f z \<le> f (last ys)" by (simp add: sorted_append)
  moreover have "x \<in> set (butlast ys) \<or> x = last ys"
    using x(1) \<open>ys = butlast ys @ [last ys]\<close> by (metis Un_iff insert_iff list.set(2) set_append empty_iff list.set(1))
  ultimately show "y \<le> f (last ys)" using x(2) by auto
qed

lemma hd_sorted_desc:
  assumes "data \<noteq> []"
  shows "updated_date (hd (sorted_desc data)) = Max (updated_date ` set data)"
proof -
  have ne: "sort_key updated_date (rev data) \<noteq> []" using assms by (metis set_sort set_rev set_empty)
  have "hd (sorted_desc data) = last (sort_key updated_date (rev data))"
    by (simp add: sorted_desc_def hd_rev)
  then show ?thesis using sorted_last_Max[of updated_date "sort_key updated_date (rev data)", OF _ ne]
    by simp
qed

subsection \<open>The branches of one distribution's processing\<close>

lemma process_dist_unknown:
  "DISTRIBUTIONS_ERRATA_URL dist = None \<Longrightarrow>
   process_dist env st dist =
     Inr (logging WARNING (''Skipping '' @ dist @ '' as it is not a valid distribution'') st)"
  by (simp add: process_dist_def)

lemma process_dist_no_data:
  assumes "DISTRIBUTIONS_ERRATA_URL dist = Some url"
    and "feed env (fetches st) url = None \<or> feed env (fetches st) url = Some []"
  shows "process_dist env st dist =
     Inr (logging WARNING (''Could not fetch errata file for '' @ dist @ '', skipping'')
            (st\<lparr>fetches := fetches st + 1\<rparr>))"
  using assms by (auto simp: process_dist_def fetch_errata_data_def sorted_desc_def)

lemma process_dist_bootstrap:
  assumes "DISTRIBUTIONS_ERRATA_URL dist = Some url"
    and "feed env (fetches st) url = Some data" and "data \<noteq> []"
    and "\<not> os_path_exists env st (dist @ ''_last_processed_ts'')"
  shows "process_dist env st dist =
     (case save_last_processed_ts env (st\<lparr>fetches := fetches st + 1\<rparr>)
             (dist @ ''_last_processed_ts'') (Max (updated_date ` set data)) of
        Inl x \<Rightarrow> Inl x
      | Inr st2 \<Rightarrow>
          Inr (logging WARNING
                 (''Skipping notifications for '' @ dist @
                  '' as it looks like is the first time this script is running'') st2))"
proof -
  obtain newest older where sd: "sorted_desc data = newest # older"
    using assms(3) by (cases "sorted_desc data") auto
  have "updated_date newest = Max (updated_date ` set data)"
    using hd_sorted_desc[OF assms(3)] sd by simp
  then show ?thesis
    using assms(1,2,4) sd
    by (simp add: process_dist_def fetch_errata_data_def os_path_exists_def Let_def)
qed

lemma process_dist_normal:
  assumes "DISTRIBUTIONS_ERRATA_URL dist = Some url"
    and "feed env (fetches st) url = Some data" and "data \<noteq> []"
    and "os_path_exists env st (dist @ ''_last_processed_ts'')"
    and "watermark env st dist = Some w"
  shows "process_dist env st dist =
     send_loop env (dist @ ''_last_processed_ts'') (st\<lparr>fetches := fetches st + 1\<rparr>)
       (new_entries w data)"
proof -
  obtain newest older where sd: "sorted_desc data = newest # older"
    using assms(3) by (cases "sorted_desc data") auto
  from assms(5) obtain line where
    rd: "read_last_processed_ts env st (dist @ ''_last_processed_ts'') = Inr line"
    and pi: "py_int line = Some w"
    by (auto simp: watermark_def split: sum.splits)
  have rd1: "read_last_processed_ts env (st\<lparr>fetches := fetches st + 1\<rparr>)
      (dist @ ''_last_processed_ts'') = Inr line"
    using rd by (simp add: read_last_processed_ts_def)
  have "process_dist env st dist =
      send_loop env (dist @ ''_last_processed_ts'') (st\<lparr>fetches := fetches st + 1\<rparr>)
        (rev (filter (\<lambda>x. w < updated_date x) (newest # older)))"
    using assms(1,2,4) sd rd1 pi
    by (auto simp: process_dist_def fetch_errata_data_def os_path_exists_def Let_def
        simp del: filter.simps)
  then show ?thesis by (simp only: new_entries_def sd)
qed

lemma process_dist_unreadable:
  assumes "DISTRIBUTIONS_ERRATA_URL dist = Some url"
    and "feed env (fetches st) url = Some data" and "data \<noteq> []"
    and "os_path_exists env st (dist @ ''_last_processed_ts'')"
    and "watermark env st dist = None"
  shows "\<exists>err. process_dist env st dist = Inl (err, st\<lparr>fetches := fetches st + 1\<rparr>)"
proof -
  obtain newest older where sd: "sorted_desc data = newest # older"
    using assms(3) by (cases "sorted_desc data") auto
  show ?thesis
    using assms(1,2,4,5) sd
    by (auto simp: process_dist_def fetch_errata_data_def os_path_exists_def watermark_def
        read_last_processed_ts_def Let_def split: sum.splits option.splits)
qed

lemma href_loop_find:
  "href_loop uid h refs = (case find (\<lambda>r. ref_id r = uid) refs of None \<Rightarrow> h | Some r \<Rightarrow> href r)"
  by (induction refs) auto

lemma run_loop_append:
  "run_loop env st (xs @ ys) =
     (case run_loop env st xs of Inl x \<Rightarrow> Inl x | Inr st1 \<Rightarrow> run_loop env st1 ys)"
  by (induction xs arbitrary: st) (auto split: sum.splits)

subsection \<open>The persisted watermark\<close>

lemma watermark_fs:
  "watermark env st dist =
     (case fs st (ts_path env (dist @ ''_last_processed_ts'')) of
        None \<Rightarrow> None | Some content \<Rightarrow> py_int (readline content))"
  by (simp add: watermark_def read_last_processed_ts_def split: option.splits)

lemma watermark_written:
  "fs st (ts_path env (dist @ ''_last_processed_ts'')) = Some (py_str n) \<Longrightarrow>
   watermark env st dist = Some n"
  by (simp add: watermark_fs readline_py_str py_int_py_str)

lemma watermark_cong:
  "fs st' (ts_path env (dist @ ''_last_processed_ts'')) =
     fs st (ts_path env (dist @ ''_last_processed_ts'')) \<Longrightarrow>
   watermark env st' dist = watermark env st dist"
  by (simp add: watermark_fs)

lemma watermark_fetches [simp]:
  "watermark env (st\<lparr>fetches := n\<rparr>) dist = watermark env st dist"
  by (simp add: watermark_fs)

lemma os_path_exists_fetches [simp]:
  "os_path_exists env (st\<lparr>fetches := n\<rparr>) p = os_path_exists env st p"
  by (simp add: os_path_exists_def)

lemma attempted_since_fetches [simp]:
  "attempted_since (st\<lparr>fetches := n\<rparr>) st' = attempted_since st st'"
  "delivered_since (st\<lparr>fetches := n\<rparr>) st' = delivered_since st st'"
  by (simp_all add: attempted_since_def delivered_since_def)

lemma attempted_since_same [simp]:
  "smtp_calls st' = smtp_calls st \<Longrightarrow> attempted_since st st' = []"
  "smtp_calls st' = smtp_calls st \<Longrightarrow> delivered_since st st' = []"
  by (simp_all add: attempted_since_def delivered_since_def)

lemma send_loop_attempted:
  "attempted_since st (final (send_loop env file st todo)) =
     map fst (calls_of env (length (smtp_calls st)) todo)"
  by (simp add: attempted_since_def send_loop_calls)

lemma send_loop_delivered:
  "delivered_since st (final (send_loop env file st todo)) =
     map fst (filter (\<lambda>c. snd (snd c)) (calls_of env (length (smtp_calls st)) todo))"
  by (simp add: delivered_since_def send_loop_calls)

lemma delivered_sorted:
  "sorted_wrt R (map g (attempted_since st st')) \<Longrightarrow> sorted_wrt R (map g (delivered_since st st'))"
  unfolding delivered_since_def attempted_since_def
  by (simp add: sorted_wrt_map sorted_wrt_filter)

lemma delivered_attempted: "set (delivered_since st st') \<subseteq> set (attempted_since st st')"
  unfolding delivered_since_def attempted_since_def by auto

lemma save_cases:
  "save_last_processed_ts env st file ts =
     (case disk env (writes st) of
        WriteOk \<Rightarrow>
          Inr (logging INFO (''Updated '' @ file @ '' with timestamp '' @ py_str ts)
                 (st\<lparr>writes := writes st + 1, fs := (fs st)(ts_path env file \<mapsto> py_str ts)\<rparr>))
      | OpenRaises \<Rightarrow> Inl (OSError, st\<lparr>writes := writes st + 1\<rparr>)
      | WriteRaises \<Rightarrow>
          Inl (OSError, st\<lparr>writes := writes st + 1, fs := (fs st)(ts_path env file \<mapsto> [])\<rparr>))"
  by (simp add: save_last_processed_ts_def Let_def split: write_outcome.splits)

lemma process_dist_fs_other:
  assumes "q \<noteq> ts_path env (dist @ ''_last_processed_ts'')"
  shows "fs (final (process_dist env st dist)) q = fs st q"
proof (cases "DISTRIBUTIONS_ERRATA_URL dist")
  case None
  then show ?thesis by (simp add: process_dist_unknown)
next
  case (Some url)
  show ?thesis
  proof (cases "feed env (fetches st) url = None \<or> feed env (fetches st) url = Some []")
    case True
    then show ?thesis by (simp add: process_dist_no_data[OF Some])
  next
    case False
    then obtain data where data: "feed env (fetches st) url = Some data" "data \<noteq> []" by auto
    show ?thesis
    proof (cases "os_path_exists env st (dist @ ''_last_processed_ts'')")
      case False
      show ?thesis
        unfolding process_dist_bootstrap[OF Some data False]
        using assms by (simp add: save_cases split: write_outcome.splits)
    next
      case True
      show ?thesis
      proof (cases "watermark env st dist")
        case None
        from process_dist_unreadable[OF Some data True None] show ?thesis by auto
      next
        case (Some w)
        show ?thesis
          unfolding process_dist_normal[OF \<open>DISTRIBUTIONS_ERRATA_URL dist = Some url\<close> data True Some]
          using assms by (simp add: send_loop_fs_other)
      qed
    qed
  qed
qed

text \<open>
  Whatever a run does for a distribution, it hands entries to the server only on the
  path that read a watermark, and then a prefix of the new entries, oldest first.
\<close>

lemma process_dist_attempted:
  "attempted_since st (final (process_dist env st dist)) = [] \<or>
   (\<exists>url data w k.
      DISTRIBUTIONS_ERRATA_URL dist = Some url \<and> feed env (fetches st) url = Some data \<and>
      data \<noteq> [] \<and> os_path_exists env st (dist @ ''_last_processed_ts'') \<and>
      watermark env st dist = Some w \<and>
      attempted_since st (final (process_dist env st dist)) = take k (new_entries w data))"
proof (cases "DISTRIBUTIONS_ERRATA_URL dist")
  case None
  then show ?thesis by (simp add: process_dist_unknown)
next
  case (Some url)
  show ?thesis
  proof (cases "feed env (fetches st) url = None \<or> feed env (fetches st) url = Some []")
    case True
    then show ?thesis by (simp add: process_dist_no_data[OF Some])
  next
    case False
    then obtain data where data: "feed env (fetches st) url = Some data" "data \<noteq> []" by auto
    show ?thesis
    proof (cases "os_path_exists env st (dist @ ''_last_processed_ts'')")
      case False
      have "attempted_since st (final (process_dist env st dist)) = []"
        unfolding process_dist_bootstrap[OF Some data False]
        by (simp add: save_cases split: write_outcome.splits)
      then show ?thesis by simp
    next
      case True
      show ?thesis
      proof (cases "watermark env st dist")
        case None
        from process_dist_unreadable[OF Some data True None] show ?thesis by auto
      next
        case (Some w)
        note normal = process_dist_normal[OF \<open>DISTRIBUTIONS_ERRATA_URL dist = Some url\<close> data True Some]
        obtain k where k: "map fst (calls_of env (length (smtp_calls st)) (new_entries w data)) =
            take k (new_entries w data)"
          using calls_of_prefix by blast
        have "attempted_since st (final (process_dist env st dist)) = take k (new_entries w data)"
          unfolding normal using send_loop_attempted[of "st\<lparr>fetches := fetches st + 1\<rparr>"] k
          by simp
        then show ?thesis
          using \<open>DISTRIBUTIONS_ERRATA_URL dist = Some url\<close> data True Some by blast
      qed
    qed
  qed
qed

section \<open>The claims\<close>

text \<open>
  C8. The link put into the body of an entry's message is the \<open>href\<close> of the first
  reference, in the order of \<^verbatim>\<open>references\<close>, whose \<open>id\<close> is the entry's own
  \<^verbatim>\<open>updateinfo_id\<close>, and the empty string when no reference has that id. The body is the
  content template with that link as its last argument, and it is the content of the
  message that is built.
\<close>

theorem link_is_first_own_reference:
  "get_almalinux_errata_href e =
     (case find (\<lambda>r. ref_id r = updateinfo_id e) (references e) of
        None \<Rightarrow> [] | Some r \<Rightarrow> href r) \<and>
   email_body e =
     (case ts_to_date (updated_date e) of
        Inl err \<Rightarrow> Inl err
      | Inr d \<Rightarrow>
          Inr (CONTENT_TEMPLATE (capitalize (errata_type e)) (capitalize (severity e)) d
                 (description e)
                 (case find (\<lambda>r. ref_id r = updateinfo_id e) (references e) of
                    None \<Rightarrow> [] | Some r \<Rightarrow> href r))) \<and>
   (case build_message s r e of
      Inl err \<Rightarrow> True
    | Inr msg \<Rightarrow> email_body e = Inr (msg_content msg))"
proof -
  have link: "get_almalinux_errata_href e =
     (case find (\<lambda>r. ref_id r = updateinfo_id e) (references e) of
        None \<Rightarrow> [] | Some r \<Rightarrow> href r)"
    by (simp add: get_almalinux_errata_href_def href_loop_find)
  have body: "email_body e =
     (case ts_to_date (updated_date e) of
        Inl err \<Rightarrow> Inl err
      | Inr d \<Rightarrow>
          Inr (CONTENT_TEMPLATE (capitalize (errata_type e)) (capitalize (severity e)) d
                 (description e)
                 (case find (\<lambda>r. ref_id r = updateinfo_id e) (references e) of
                    None \<Rightarrow> [] | Some r \<Rightarrow> href r)))"
    by (simp add: email_body_def link split: sum.splits)
  have msg: "(case build_message s r e of
      Inl err \<Rightarrow> True
    | Inr msg \<Rightarrow> email_body e = Inr (msg_content msg))"
    by (auto simp: build_message_def split: sum.splits)
  from link body msg show ?thesis by blast
qed

theorem link_is_first_own_reference_witness:
  "get_almalinux_errata_href e200 = ''https://errata.almalinux.org/8/ALSA-2023:0200.html'' \<and>
   get_almalinux_errata_href (e200\<lparr>references := []\<rparr>) = []"
proof -
  have 1: "find (\<lambda>r. ref_id r = updateinfo_id e200) (references e200) =
      Some \<lparr>ref_id = ''ALSA-2023:0200'',
            href = ''https://errata.almalinux.org/8/ALSA-2023:0200.html''\<rparr>"
    by code_simp
  have 2: "find (\<lambda>r. ref_id r = updateinfo_id (e200\<lparr>references := []\<rparr>))
      (references (e200\<lparr>references := []\<rparr>)) = None"
    by simp
  show ?thesis
    using link_is_first_own_reference[of e200] link_is_first_own_reference[of "e200\<lparr>references := []\<rparr>"]
    unfolding 1 2 by simp
qed

text \<open>
  C7. A distribution identifier that is not a key of \<^verbatim>\<open>DISTRIBUTIONS_ERRATA_URL\<close> is skipped:
  its processing returns (no exception), the files, the calls of \<^verbatim>\<open>send\<close> and the counts
  of fetches and writes are what they were, and one WARNING record is logged. The loop over
  the distributions then goes on with the identifiers that follow, from that state.
\<close>

theorem unknown_distribution_skipped:
  assumes "dist \<notin> dom DISTRIBUTIONS_ERRATA_URL"
  shows "returns (process_dist env st dist) \<and>
    fs (final (process_dist env st dist)) = fs st \<and>
    smtp_calls (final (process_dist env st dist)) = smtp_calls st \<and>
    attempted_since st (final (process_dist env st dist)) = [] \<and>
    writes (final (process_dist env st dist)) = writes st \<and>
    fetches (final (process_dist env st dist)) = fetches st \<and>
    log (final (process_dist env st dist)) =
      log st @ [(WARNING, ''Skipping '' @ dist @ '' as it is not a valid distribution'')] \<and>
    run_loop env st (dist # following) = run_loop env (final (process_dist env st dist)) following \<and>
    run_loop env st (preceding @ dist # following) =
      (case run_loop env st preceding of
         Inl x \<Rightarrow> Inl x
       | Inr st1 \<Rightarrow> run_loop env (final (process_dist env st1 dist)) following)"
proof -
  from assms have none: "DISTRIBUTIONS_ERRATA_URL dist = None" by auto
  have pd: "process_dist env s dist =
      Inr (logging WARNING (''Skipping '' @ dist @ '' as it is not a valid distribution'') s)" for s
    by (rule process_dist_unknown[OF none])
  have "run_loop env st (preceding @ dist # following) =
      (case run_loop env st preceding of
         Inl x \<Rightarrow> Inl x
       | Inr st1 \<Rightarrow> run_loop env (final (process_dist env st1 dist)) following)"
    unfolding run_loop_append by (simp add: pd split: sum.splits)
  then show ?thesis by (simp add: pd attempted_since_def)
qed

theorem unknown_distribution_skipped_witness:
  "fs (final (process_dist (example_env ''/opt/errata'' always disk_ok)
         (start_state wm150) ''almalinux-10'')) = wm150 \<and>
   run_loop (example_env ''/opt/errata'' always disk_ok) (start_state wm150)
     [''almalinux-10'', ''almalinux-8''] =
   run_loop (example_env ''/opt/errata'' always disk_ok)
     (final (process_dist (example_env ''/opt/errata'' always disk_ok)
         (start_state wm150) ''almalinux-10'')) [''almalinux-8'']"
proof -
  have h: "''almalinux-10'' \<notin> dom DISTRIBUTIONS_ERRATA_URL"
    by (simp add: DISTRIBUTIONS_ERRATA_URL_def dom_def)
  show ?thesis
    using unknown_distribution_skipped[OF h, of "example_env ''/opt/errata'' always disk_ok"
        "start_state wm150" "[''almalinux-8'']" "[]"]
    by (simp add: start_state_def)
qed

end
